theory Spec2Isabelle
  imports Main "HOL-Library.Sublist"
begin

section \<open>NetconfSystemSSHTransport: the data model\<close>

text \<open>
  Python \<open>bytes\<close> are lists of 8-bit characters. \<open>bytes.lower()\<close> maps the ASCII
  capitals (65 to 90) to their small letters and leaves every other byte alone.
\<close>

type_synonym bytes = "char list"

definition lower_byte :: "char \<Rightarrow> char" where
  "lower_byte c =
     (if (65::nat) \<le> of_char c \<and> (of_char c :: nat) \<le> 90
      then char_of (of_char c + (32::nat)) else c)"

definition lower :: "bytes \<Rightarrow> bytes" where
  "lower bs = map lower_byte bs"

text \<open>The \<open>in\<close> operator on bytes: \<open>bytes_in n h\<close> is \<open>n in h\<close>, a contiguous match.\<close>

fun bytes_in :: "bytes \<Rightarrow> bytes \<Rightarrow> bool" where
  "bytes_in n [] = (n = [])"
| "bytes_in n (h # hs) = (prefix n (h # hs) \<or> bytes_in n hs)"

abbreviation prompt_seen :: "bytes \<Rightarrow> bool" where
  "prompt_seen output \<equiv> bytes_in ''password:'' (lower output)"

abbreviation hello_seen :: "bytes \<Rightarrow> bool" where
  "hello_seen output \<equiv> bytes_in ''<hello'' (lower output)"

text \<open>
  The exceptions the transport raises. \<open>OperationTimeout\<close> is what the timeout decorator
  raises on expiry; \<open>RuntimeError\<close> is what releasing a lock that is not held raises.
\<close>

datatype exn =
    ScrapliAuthenticationFailed string
  | NotImplementedError string
  | OperationTimeout string
  | RuntimeError string

text \<open>\<open>session.read()\<close> either returns the bytes that arrived or raises \<open>EOFError\<close>.\<close>

datatype read_event = Data bytes | EOFError

text \<open>
  The fields of the transport the methods touch. \<open>session_lock\<close> is True while the lock
  is held; \<open>session_written\<close> lists, in order, every argument of \<open>session.write\<close>.
  The strings \<open>auth_password\<close> and \<open>comms_return_char\<close> stand for their encoded bytes.
\<close>

record transport =
  host :: string
  auth_password :: bytes
  comms_return_char :: bytes
  timeout_ops :: nat
  keepalive :: bool
  open_cmd :: "string list"
  session_lock :: bool
  isauthenticated :: bool
  session_written :: "bytes list"

text \<open>
  How a call ends. A call that is stuck has not ended: \<open>BlockedInRead\<close> is the loop
  waiting in \<open>session.read()\<close> with no more input, holding the locals \<open>output\<close> and
  \<open>password_count\<close>; \<open>BlockedOnLock\<close> is \<open>acquire\<close> waiting for a lock that is held.
\<close>

datatype 'a outcome =
    Returned 'a
  | Raised exn
  | BlockedInRead bytes int
  | BlockedOnLock

fun ended :: "'a outcome \<Rightarrow> bool" where
  "ended (Returned x) = True"
| "ended (Raised e) = True"
| "ended (BlockedInRead output n) = False"
| "ended BlockedOnLock = False"

section \<open>The collaborators\<close>

definition session_write :: "transport \<Rightarrow> bytes \<Rightarrow> transport" where
  "session_write t bs = t\<lparr>session_written := session_written t @ [bs]\<rparr>"

definition release :: "transport \<Rightarrow> exn + transport" where
  "release t =
     (if session_lock t then Inr (t\<lparr>session_lock := False\<rparr>)
      else Inl (RuntimeError ''release unlocked lock''))"

section \<open>\<open>_build_open_cmd\<close>\<close>

text \<open>
  \<open>super()._build_open_cmd()\<close> belongs to the base transport; it is the parameter
  \<open>base\<close>, which leaves the tokens in \<open>open_cmd\<close>.
\<close>

definition build_open_cmd :: "(transport \<Rightarrow> transport) \<Rightarrow> transport \<Rightarrow> transport" where
  "build_open_cmd base t =
     (let t' = base t in t'\<lparr>open_cmd := open_cmd t' @ [''-s'', ''netconf'']\<rparr>)"

section \<open>\<open>_authenticate\<close>\<close>

definition eof_msg :: "string \<Rightarrow> string" where
  "eof_msg h =
     ''Failed to open connection to host '' @ h @
     ''. Do you need to disable `auth_strict_key`?''"

definition multi_msg :: string where
  "multi_msg =
     ''`password` seen multiple times during session establishment, '' @
     ''likely failed authentication''"

text \<open>Lines 98 to 105: the reply to a password prompt.\<close>

definition check_prompt :: "transport \<Rightarrow> bytes \<Rightarrow> int \<Rightarrow> transport \<times> bytes \<times> int" where
  "check_prompt t output password_count =
     (if prompt_seen output
      then (session_write (session_write t (auth_password t)) (comms_return_char t),
            [], password_count + 1)
      else (t, output, password_count))"

text \<open>An exit that releases the lock first (lines 96, 111 and 116).\<close>

definition release_then :: "transport \<Rightarrow> bytes outcome \<Rightarrow> bytes outcome \<times> transport" where
  "release_then t r =
     (case release t of Inl e \<Rightarrow> (Raised e, t) | Inr t' \<Rightarrow> (r, t'))"

text \<open>
  The \<open>while True\<close> loop, lines 82 to 117, over the results of the reads to come.
  \<open>handler\<close> is \<open>_ssh_message_handler\<close> of the base transport: \<open>Some e\<close> when it raises
  \<open>e\<close> on the output, \<open>None\<close> when it returns. The calls of the logger are left out.
\<close>

fun auth_loop ::
  "(bytes \<Rightarrow> exn option) \<Rightarrow> transport \<Rightarrow> bytes \<Rightarrow> int \<Rightarrow> read_event list
     \<Rightarrow> bytes outcome \<times> transport" where
  "auth_loop handler t output password_count [] = (BlockedInRead output password_count, t)"
| "auth_loop handler t output password_count (EOFError # rs) =
     (case handler output of
        Some e \<Rightarrow> (Raised e, t)
      | None \<Rightarrow> release_then t (Raised (ScrapliAuthenticationFailed (eof_msg (host t)))))"
| "auth_loop handler t output password_count (Data new_output # rs) =
     (case check_prompt t (output @ new_output) password_count of
        (t1, output1, password_count1) \<Rightarrow>
          if password_count1 > 1
          then release_then t1 (Raised (ScrapliAuthenticationFailed multi_msg))
          else if hello_seen output1
          then release_then (t1\<lparr>isauthenticated := True\<rparr>) (Returned output1)
          else auth_loop handler t1 output1 password_count1 rs)"

text \<open>Line 79 onwards: acquire the lock, then loop from the empty output and count 0.\<close>

definition authenticate ::
  "(bytes \<Rightarrow> exn option) \<Rightarrow> transport \<Rightarrow> read_event list \<Rightarrow> bytes outcome \<times> transport" where
  "authenticate handler t rs =
     (if session_lock t then (BlockedOnLock, t)
      else auth_loop handler (t\<lparr>session_lock := True\<rparr>) [] 0 rs)"

section \<open>The keepalive stubs\<close>

definition keepalive_network :: "transport \<Rightarrow> unit outcome \<times> transport" where
  "keepalive_network t =
     (Raised (NotImplementedError ''`network` style keepalives not supported with netconf''), t)"

definition keepalive_standard :: "transport \<Rightarrow> unit outcome \<times> transport" where
  "keepalive_standard t =
     (Raised (NotImplementedError ''keepalives not yet implemented''), t)"

section \<open>The operation timeout\<close>

text \<open>
  Modelled from the spec: the timeout collaborator, the decorator \<open>operation_timeout\<close>
  of the base library, whose code is not among the sources of this repository. The spec:
  it "wraps a named operation with a configured duration and a fixed human-readable
  timeout message; on expiry raises a timeout error". Time is counted in ticks. Each read comes with the ticks it blocks
  before it delivers; \<open>arrived_by d rs\<close> are the reads delivered before \<open>d\<close> ticks have
  passed since the call began. A call that has not ended on those reads is cut off with
  \<open>OperationTimeout\<close>, and the lock is released: "timeout expiry must cancel the
  in-progress operation and release the lock". A duration of 0 is no configured
  duration: the call then runs on all the reads, with no deadline.
\<close>

type_synonym timed_read = "nat \<times> read_event"

fun arrived_by :: "nat \<Rightarrow> timed_read list \<Rightarrow> read_event list" where
  "arrived_by d [] = []"
| "arrived_by d ((dt, ev) # rs) = (if dt < d then ev # arrived_by (d - dt) rs else [])"

definition operation_timeout ::
  "nat \<Rightarrow> string \<Rightarrow> (read_event list \<Rightarrow> 'a outcome \<times> transport) \<Rightarrow> timed_read list
     \<Rightarrow> 'a outcome \<times> transport" where
  "operation_timeout d message wrapped rs =
     (if d = 0 then wrapped (map snd rs)
      else case wrapped (arrived_by d rs) of
        (r, t) \<Rightarrow>
          if ended r then (r, t)
          else (Raised (OperationTimeout message), t\<lparr>session_lock := False\<rparr>))"

text \<open>Line 63: the decorator, its attribute and its message, around \<open>_authenticate\<close>.\<close>

definition authenticate_timed ::
  "(bytes \<Rightarrow> exn option) \<Rightarrow> transport \<Rightarrow> timed_read list \<Rightarrow> bytes outcome \<times> transport" where
  "authenticate_timed handler t rs =
     operation_timeout (timeout_ops t) ''Timed out looking for SSH login password prompt''
       (authenticate handler t) rs"

section \<open>Comparing runs up to letter case\<close>

fun ev_lower :: "read_event \<Rightarrow> read_event" where
  "ev_lower (Data bs) = Data (lower bs)"
| "ev_lower EOFError = EOFError"

fun outcome_lower :: "bytes outcome \<Rightarrow> bytes outcome" where
  "outcome_lower (Returned bs) = Returned (lower bs)"
| "outcome_lower (Raised e) = Raised e"
| "outcome_lower (BlockedInRead bs n) = BlockedInRead (lower bs) n"
| "outcome_lower BlockedOnLock = BlockedOnLock"

section \<open>Concrete values\<close>

definition example_transport :: transport where
  "example_transport =
     \<lparr>host = ''router1'', auth_password = ''secret'', comms_return_char = [CHR 0x0A],
      timeout_ops = 5, keepalive = False, open_cmd = [''ssh'', ''router1''],
      session_lock = False, isauthenticated = False, session_written = []\<rparr>"

text \<open>A peer-message handler that raises on a host-key complaint and returns otherwise.\<close>

definition example_handler :: "bytes \<Rightarrow> exn option" where
  "example_handler output =
     (if bytes_in ''host key verification failed'' (lower output)
      then Some (ScrapliAuthenticationFailed ''Host key verification failed'')
      else None)"

section \<open>Facts about matching and the lock\<close>

lemma bytes_in_sublist: "bytes_in n h = sublist n h"
  by (induction h) (simp_all add: sublist_Cons_right)

lemma lower_Nil [simp]: "lower [] = []"
  by (simp add: lower_def)

lemma lower_append [simp]: "lower (a @ b) = lower a @ lower b"
  by (simp add: lower_def)

lemma release_held [simp]: "session_lock t \<Longrightarrow> release t = Inr (t\<lparr>session_lock := False\<rparr>)"
  by (simp add: release_def)

lemma release_then_held [simp]:
  "session_lock t \<Longrightarrow> release_then t r = (r, t\<lparr>session_lock := False\<rparr>)"
  by (simp add: release_then_def)

lemma auth_loop_append:
  "auth_loop h t out n (xs @ ys) =
     (case auth_loop h t out n xs of
        (BlockedInRead out' n', t') \<Rightarrow> auth_loop h t' out' n' ys
      | r \<Rightarrow> r)"
proof (induction xs arbitrary: t out n)
  case Nil
  then show ?case by simp
next
  case (Cons x xs)
  show ?case
  proof (cases x)
    case (Data c)
    then show ?thesis
      using Cons.IH
      by (simp add: release_then_def split: prod.splits sum.splits)
  next
    case EOFError
    then show ?thesis
      by (simp add: release_then_def split: option.splits sum.splits)
  qed
qed

lemma seen_mono:
  "bytes_in n b \<Longrightarrow> bytes_in n (a @ b @ c)"
  unfolding bytes_in_sublist
  by (metis sublist_appendI sublist_order.order_trans)

lemma seen_mono_left: "bytes_in n a \<Longrightarrow> bytes_in n (a @ c)"
  using seen_mono [of n a "[]" c] by simp

lemma seen_mono_right: "bytes_in n b \<Longrightarrow> bytes_in n (a @ b)"
  using seen_mono [of n b a "[]"] by simp

lemma seen_sublist: "sublist a b \<Longrightarrow> bytes_in n (lower a) \<Longrightarrow> bytes_in n (lower b)"
  by (auto simp: sublist_def intro: seen_mono)

lemma check_prompt_lock [simp]:
  "session_lock (fst (check_prompt t out n)) = session_lock t"
  by (simp add: check_prompt_def session_write_def)

section \<open>Runs over data reads\<close>

text \<open>A run over data reads only, from any loop state.\<close>

lemma data_run_blocked:
  assumes "auth_loop h t out n (map Data cs) = (BlockedInRead out' n', t')"
  shows "suffix out' (out @ concat cs) \<and> n \<le> n' \<and> n' \<le> max n 1
         \<and> (session_lock t \<longrightarrow> session_lock t')
         \<and> isauthenticated t' = isauthenticated t
         \<and> (cs \<noteq> [] \<or> \<not> prompt_seen out \<longrightarrow> \<not> prompt_seen out')"
  using assms
proof (induction cs arbitrary: t out n)
  case Nil
  then show ?case by simp
next
  case (Cons c cs)
  show ?case
  proof (cases "prompt_seen (out @ c)")
    case True
    with Cons.prems have n: "\<not> n + 1 > 1" and nh: "\<not> hello_seen []"
      and run: "auth_loop h (session_write (session_write t (auth_password t)) (comms_return_char t)) [] (n + 1) (map Data cs) = (BlockedInRead out' n', t')"
      by (auto simp: check_prompt_def release_then_def split: if_splits sum.splits)
    from Cons.IH [OF run] n show ?thesis
      by (auto simp: session_write_def suffix_def)
  next
    case False
    with Cons.prems have n: "\<not> n > 1"
      and run: "auth_loop h t (out @ c) n (map Data cs) = (BlockedInRead out' n', t')"
      by (auto simp: check_prompt_def release_then_def split: if_splits sum.splits)
    from Cons.IH [OF run] n False show ?thesis
      by (auto simp: suffix_def)
  qed
qed

lemma data_run_returned:
  assumes "auth_loop h t out n (map Data cs) = (Returned r, t')"
  shows "sublist r (out @ concat cs) \<and> hello_seen r"
  using assms
proof (induction cs arbitrary: t out n)
  case Nil
  then show ?case by simp
next
  case (Cons c cs)
  show ?case
  proof (cases "prompt_seen (out @ c)")
    case True
    with Cons.prems have
      run: "auth_loop h (session_write (session_write t (auth_password t)) (comms_return_char t)) [] (n + 1) (map Data cs) = (Returned r, t')"
      by (auto simp: check_prompt_def release_then_def split: if_splits sum.splits)
    from Cons.IH [OF run] show ?thesis
      by (auto simp: sublist_def) (metis append.assoc)
  next
    case False
    with Cons.prems consider
      (now) "hello_seen (out @ c)" "r = out @ c"
      | (later) "auth_loop h t (out @ c) n (map Data cs) = (Returned r, t')"
      by (auto simp: check_prompt_def release_then_def split: if_splits sum.splits)
    then show ?thesis
    proof cases
      case now
      then show ?thesis by simp
    next
      case later
      from Cons.IH [OF later] show ?thesis by simp
    qed
  qed
qed

lemma data_run_raised:
  assumes "auth_loop h t out n (map Data cs) = (Raised e, t')" and "session_lock t"
  shows "e = ScrapliAuthenticationFailed multi_msg \<and> \<not> session_lock t'
         \<and> isauthenticated t' = isauthenticated t"
  using assms
proof (induction cs arbitrary: t out n)
  case Nil
  then show ?case by simp
next
  case (Cons c cs)
  obtain t1 out1 n1 where cp: "check_prompt t (out @ c) n = (t1, out1, n1)"
    by (cases "check_prompt t (out @ c) n") auto
  then have lk: "session_lock t1"
    using Cons.prems(2) check_prompt_lock [of t "out @ c" n] by simp
  from cp have fl: "isauthenticated t1 = isauthenticated t"
    by (auto simp: check_prompt_def session_write_def split: if_splits)
  show ?case
  proof (cases "n1 > 1")
    case True
    with Cons.prems(1) cp lk fl show ?thesis by auto
  next
    case False
    with Cons.prems(1) cp lk have "auth_loop h t1 out1 n1 (map Data cs) = (Raised e, t')"
      by (auto split: if_splits)
    from Cons.IH [OF this lk] fl show ?thesis by simp
  qed
qed

lemma data_run_never_lockblocked:
  "fst (auth_loop h t out n (map Data cs)) \<noteq> BlockedOnLock"
  by (induction cs arbitrary: t out n)
     (auto simp: release_then_def split: prod.splits sum.splits)

lemma data_run_count:
  assumes "auth_loop h t out n (map Data cs) = (BlockedInRead out' n', t')"
    and "\<not> prompt_seen out" and "prompt_seen (out @ concat cs)"
  shows "n < n'"
  using assms
proof (induction cs arbitrary: t out n)
  case Nil
  then show ?case by simp
next
  case (Cons c cs)
  show ?case
  proof (cases "prompt_seen (out @ c)")
    case True
    with Cons.prems(1) have
      run: "auth_loop h (session_write (session_write t (auth_password t)) (comms_return_char t)) [] (n + 1) (map Data cs) = (BlockedInRead out' n', t')"
      by (auto simp: check_prompt_def release_then_def split: if_splits sum.splits)
    from data_run_blocked [OF run] show ?thesis by simp
  next
    case False
    with Cons.prems(1) have
      run: "auth_loop h t (out @ c) n (map Data cs) = (BlockedInRead out' n', t')"
      by (auto simp: check_prompt_def release_then_def split: if_splits sum.splits)
    from Cons.IH [OF run False] Cons.prems(3) show ?thesis by simp
  qed
qed

lemma quiet_run:
  assumes "\<not> prompt_seen (out @ concat cs)" and "\<not> hello_seen (out @ concat cs)" and "n \<le> 1"
  shows "auth_loop h t out n (map Data cs) = (BlockedInRead (out @ concat cs) n, t)"
  using assms
proof (induction cs arbitrary: out)
  case Nil
  then show ?case by simp
next
  case (Cons c cs)
  have p: "\<not> prompt_seen (out @ c)"
    using Cons.prems(1) seen_mono_left [of "''password:''" "lower (out @ c)" "lower (concat cs)"] by auto
  have g: "\<not> hello_seen (out @ c)"
    using Cons.prems(2) seen_mono_left [of "''<hello''" "lower (out @ c)" "lower (concat cs)"] by auto
  from Cons.IH [of "out @ c"] Cons.prems p g show ?case
    by (simp add: check_prompt_def)
qed

lemma not_prompt_Nil [simp]: "\<not> prompt_seen []"
  by simp

lemma auth_loop_host: "host (snd (auth_loop h t out n rs)) = host t"
proof (induction rs arbitrary: t out n)
  case Nil
  then show ?case by simp
next
  case (Cons x rs)
  show ?case
  proof (cases x)
    case (Data c)
    obtain t1 out1 n1 where cp: "check_prompt t (out @ c) n = (t1, out1, n1)"
      by (cases "check_prompt t (out @ c) n") auto
    then have "host t1 = host t"
      by (auto simp: check_prompt_def session_write_def split: if_splits)
    with Cons.IH [of t1 out1 n1] cp Data show ?thesis
      by (simp add: release_then_def release_def)
  next
    case EOFError
    then show ?thesis
      by (simp add: release_then_def release_def split: option.splits)
  qed
qed

section \<open>Repeated password prompts\<close>

text \<open>
  Claim C1, as the code has it. The prompt is counted once for each loop iteration in
  which \<open>password:\<close> is in the accumulator. Let the reads \<open>pre\<close> hold neither
  \<open>password:\<close> nor \<open><hello\<close>, let the read \<open>p\<close> complete the first prompt, let the
  reads \<open>mid\<close> after it hold neither, and let the read \<open>q\<close> complete a second prompt.
  A greeting inside \<open>p\<close> or \<open>q\<close> changes nothing. Then the call writes the password and
  the return character twice and raises \<open>ScrapliAuthenticationFailed\<close> with the
  seen-multiple-times message, with the lock released and the authentication flag
  untouched, whatever is read afterwards.
\<close>

theorem repeated_prompt_fails:
  assumes free: "\<not> session_lock t"
    and before: "\<not> prompt_seen (concat pre)" "\<not> hello_seen (concat pre)"
    and first: "prompt_seen (concat pre @ p)"
    and between: "\<not> prompt_seen (concat mid)" "\<not> hello_seen (concat mid)"
    and second: "prompt_seen (concat mid @ q)"
  shows "authenticate h t (map Data (pre @ [p] @ mid @ [q]) @ rs) =
           (Raised (ScrapliAuthenticationFailed
              ''`password` seen multiple times during session establishment, likely failed authentication''),
            t\<lparr>session_written := session_written t @
                [auth_password t, comms_return_char t, auth_password t, comms_return_char t]\<rparr>)"
proof -
  define t0 where "t0 = t\<lparr>session_lock := True\<rparr>"
  define t1 where "t1 = session_write (session_write t0 (auth_password t0)) (comms_return_char t0)"
  define t2 where "t2 = session_write (session_write t1 (auth_password t1)) (comms_return_char t1)"
  have run1: "auth_loop h t0 [] 0 (map Data pre) = (BlockedInRead (concat pre) 0, t0)"
    using quiet_run [of "[]" pre 0 h t0] before by simp
  have step1: "auth_loop h t0 (concat pre) 0 (Data p # rest) = auth_loop h t1 [] 1 rest" for rest
    using first by (simp add: check_prompt_def t1_def)
  have run2: "auth_loop h t1 [] 1 (map Data mid) = (BlockedInRead (concat mid) 1, t1)"
    using quiet_run [of "[]" mid 1 h t1] between by simp
  have step2: "auth_loop h t1 (concat mid) 1 (Data q # rs) =
      (Raised (ScrapliAuthenticationFailed multi_msg), t2\<lparr>session_lock := False\<rparr>)"
    using second by (simp add: check_prompt_def t2_def t1_def t0_def session_write_def)
  have "authenticate h t (map Data (pre @ [p] @ mid @ [q]) @ rs) =
        auth_loop h t0 [] 0 (map Data pre @ Data p # map Data mid @ Data q # rs)"
    using free by (simp add: authenticate_def t0_def)
  also have "\<dots> = auth_loop h t1 [] 1 (map Data mid @ Data q # rs)"
    by (simp add: auth_loop_append [of h t0 "[]" 0 "map Data pre"] run1 step1 del: auth_loop.simps)
  also have "\<dots> = (Raised (ScrapliAuthenticationFailed multi_msg), t2\<lparr>session_lock := False\<rparr>)"
    by (simp add: auth_loop_append [of h t1 "[]" 1 "map Data mid"] run2 step2 del: auth_loop.simps)
  also have "t2\<lparr>session_lock := False\<rparr> =
      t\<lparr>session_written := session_written t @
          [auth_password t, comms_return_char t, auth_password t, comms_return_char t]\<rparr>"
    using free by (simp add: t2_def t1_def t0_def session_write_def)
  finally show ?thesis by (simp add: multi_msg_def)
qed

text \<open>
  C1 at a concrete input: a prompt, a refusal, and a second prompt with a greeting in the
  same read.
\<close>

theorem repeated_prompt_fails_witness:
  "\<not> session_lock example_transport
   \<and> \<not> prompt_seen (concat [''login: ''])
   \<and> \<not> hello_seen (concat [''login: ''])
   \<and> prompt_seen (concat [''login: ''] @ ''Password: '')
   \<and> \<not> prompt_seen (concat [''denied''])
   \<and> \<not> hello_seen (concat [''denied''])
   \<and> prompt_seen (concat [''denied''] @ ''PASSWORD: <hello'')
   \<and> authenticate example_handler example_transport
        (map Data ([''login: ''] @ [''Password: ''] @ [''denied''] @ [''PASSWORD: <hello''])
           @ [Data ''<hello'']) =
       (Raised (ScrapliAuthenticationFailed
          ''`password` seen multiple times during session establishment, likely failed authentication''),
        example_transport\<lparr>session_written :=
          [''secret'', [CHR 0x0A], ''secret'', [CHR 0x0A]]\<rparr>)"
proof -
  have h1: "\<not> session_lock example_transport" by (simp add: example_transport_def)
  have h2: "\<not> prompt_seen (concat [''login: ''])" by code_simp
  have h3: "\<not> hello_seen (concat [''login: ''])" by code_simp
  have h4: "prompt_seen (concat [''login: ''] @ ''Password: '')" by code_simp
  have h5: "\<not> prompt_seen (concat [''denied''])" by code_simp
  have h6: "\<not> hello_seen (concat [''denied''])" by code_simp
  have h7: "prompt_seen (concat [''denied''] @ ''PASSWORD: <hello'')" by code_simp
  have w: "session_written example_transport @
      [auth_password example_transport, comms_return_char example_transport,
       auth_password example_transport, comms_return_char example_transport] =
      [''secret'', [CHR 0x0A], ''secret'', [CHR 0x0A]]"
    by (simp add: example_transport_def)
  from repeated_prompt_fails [OF h1 h2 h3 h4 h5 h6 h7, of example_handler "[Data ''<hello'']"]
  have "authenticate example_handler example_transport
        (map Data ([''login: ''] @ [''Password: ''] @ [''denied''] @ [''PASSWORD: <hello''])
           @ [Data ''<hello'']) =
       (Raised (ScrapliAuthenticationFailed
          ''`password` seen multiple times during session establishment, likely failed authentication''),
        example_transport\<lparr>session_written :=
          [''secret'', [CHR 0x0A], ''secret'', [CHR 0x0A]]\<rparr>)"
    unfolding w by simp
  with h1 h2 h3 h4 h5 h6 h7 show ?thesis by blast
qed

text \<open>
  C1 as stated fails: two prompts that arrive within one read are counted once, and the
  call returns the greeting that follows.
\<close>

theorem two_prompts_in_one_read_counterexample:
  "prompt_seen ''password: '' \<and> \<not> hello_seen ''password: password: ''
   \<and> authenticate example_handler example_transport
        [Data (''password: '' @ ''password: ''), Data ''<hello xmlns''] =
      (Returned ''<hello xmlns'',
       example_transport\<lparr>isauthenticated := True,
         session_written := [''secret'', [CHR 0x0A]]\<rparr>)"
  by code_simp

section \<open>One prompt, then the greeting\<close>

text \<open>
  Claim C3, as the code has it. Let the reads \<open>pre\<close> hold neither \<open>password:\<close> nor
  \<open><hello\<close>, let the read \<open>p\<close> complete the prompt, and let the later reads \<open>post\<close>
  and \<open>q\<close> hold no prompt, \<open>q\<close> being the first to complete \<open><hello\<close>. Then the call
  writes the password and the return character once each, sets the authentication flag,
  releases the lock, and returns exactly the bytes of the reads after \<open>p\<close> up to the end
  of \<open>q\<close>, in order.
\<close>

theorem greeting_after_prompt_returned:
  assumes free: "\<not> session_lock t"
    and before: "\<not> prompt_seen (concat pre)" "\<not> hello_seen (concat pre)"
    and prompt: "prompt_seen (concat pre @ p)"
    and after: "\<not> prompt_seen (concat post @ q)" "\<not> hello_seen (concat post)"
    and hello: "hello_seen (concat post @ q)"
  shows "authenticate h t (map Data (pre @ [p] @ post @ [q]) @ rs) =
           (Returned (concat post @ q),
            t\<lparr>isauthenticated := True,
              session_written := session_written t @ [auth_password t, comms_return_char t]\<rparr>)"
proof -
  define t0 where "t0 = t\<lparr>session_lock := True\<rparr>"
  define t1 where "t1 = session_write (session_write t0 (auth_password t0)) (comms_return_char t0)"
  have run1: "auth_loop h t0 [] 0 (map Data pre) = (BlockedInRead (concat pre) 0, t0)"
    using quiet_run [of "[]" pre 0 h t0] before by simp
  have step1: "auth_loop h t0 (concat pre) 0 (Data p # rest) = auth_loop h t1 [] 1 rest" for rest
    using prompt by (simp add: check_prompt_def t1_def)
  have np: "\<not> prompt_seen (concat post)"
    using after(1) seen_mono_left [of "''password:''" "lower (concat post)" "lower q"] by auto
  have run2: "auth_loop h t1 [] 1 (map Data post) = (BlockedInRead (concat post) 1, t1)"
    using quiet_run [of "[]" post 1 h t1] np after(2) by simp
  have step2: "auth_loop h t1 (concat post) 1 (Data q # rs) =
      (Returned (concat post @ q), t1\<lparr>isauthenticated := True, session_lock := False\<rparr>)"
    using after(1) hello by (simp add: check_prompt_def t1_def t0_def session_write_def)
  have "authenticate h t (map Data (pre @ [p] @ post @ [q]) @ rs) =
        auth_loop h t0 [] 0 (map Data pre @ Data p # map Data post @ Data q # rs)"
    using free by (simp add: authenticate_def t0_def)
  also have "\<dots> = auth_loop h t1 [] 1 (map Data post @ Data q # rs)"
    by (simp add: auth_loop_append [of h t0 "[]" 0 "map Data pre"] run1 step1 del: auth_loop.simps)
  also have "\<dots> = (Returned (concat post @ q), t1\<lparr>isauthenticated := True, session_lock := False\<rparr>)"
    by (simp add: auth_loop_append [of h t1 "[]" 1 "map Data post"] run2 step2 del: auth_loop.simps)
  also have "t1\<lparr>isauthenticated := True, session_lock := False\<rparr> =
      t\<lparr>isauthenticated := True,
        session_written := session_written t @ [auth_password t, comms_return_char t]\<rparr>"
    using free by (simp add: t1_def t0_def session_write_def)
  finally show ?thesis .
qed

text \<open>C3 at a concrete input: a banner, the prompt, then the greeting, in three reads.\<close>

theorem greeting_after_prompt_returned_witness:
  "\<not> session_lock example_transport
   \<and> \<not> prompt_seen (concat [''login ok''])
   \<and> \<not> hello_seen (concat [''login ok''])
   \<and> prompt_seen (concat [''login ok''] @ ''password: '')
   \<and> \<not> prompt_seen (concat [] @ ''<hello xmlns='')
   \<and> \<not> hello_seen (concat [])
   \<and> hello_seen (concat [] @ ''<hello xmlns='')
   \<and> authenticate example_handler example_transport
        (map Data ([''login ok''] @ [''password: ''] @ [] @ [''<hello xmlns='']) @ []) =
      (Returned ''<hello xmlns='',
       example_transport\<lparr>isauthenticated := True,
         session_written := [''secret'', [CHR 0x0A]]\<rparr>)"
proof -
  have h1: "\<not> session_lock example_transport" by (simp add: example_transport_def)
  have h2: "\<not> prompt_seen (concat [''login ok''])" by code_simp
  have h3: "\<not> hello_seen (concat [''login ok''])" by code_simp
  have h4: "prompt_seen (concat [''login ok''] @ ''password: '')" by code_simp
  have h5: "\<not> prompt_seen (concat [] @ ''<hello xmlns='')" by code_simp
  have h6: "\<not> hello_seen (concat [])" by code_simp
  have h7: "hello_seen (concat [] @ ''<hello xmlns='')" by code_simp
  have w: "session_written example_transport @
      [auth_password example_transport, comms_return_char example_transport] =
      [''secret'', [CHR 0x0A]]"
    by (simp add: example_transport_def)
  from greeting_after_prompt_returned [OF h1 h2 h3 h4 h5 h6 h7, of example_handler "[]"]
  have "authenticate example_handler example_transport
        (map Data ([''login ok''] @ [''password: ''] @ [] @ [''<hello xmlns='']) @ []) =
      (Returned ''<hello xmlns='',
       example_transport\<lparr>isauthenticated := True,
         session_written := [''secret'', [CHR 0x0A]]\<rparr>)"
    unfolding w by simp
  with h1 h2 h3 h4 h5 h6 h7 show ?thesis by blast
qed

text \<open>
  C3 as stated fails: a greeting that arrives in the read that completes the prompt is
  dropped with the accumulator. The call is still waiting in the next read, and fails if
  the stream ends there.
\<close>

theorem greeting_in_prompt_read_counterexample:
  "prompt_seen ''Password: <hello xmlns='' \<and> hello_seen ''Password: <hello xmlns=''
   \<and> authenticate example_handler example_transport [Data ''Password: <hello xmlns=''] =
       (BlockedInRead [] 1,
        example_transport\<lparr>session_lock := True, session_written := [''secret'', [CHR 0x0A]]\<rparr>)
   \<and> authenticate example_handler example_transport
         [Data ''Password: <hello xmlns='', EOFError] =
       (Raised (ScrapliAuthenticationFailed (eof_msg ''router1'')),
        example_transport\<lparr>session_written := [''secret'', [CHR 0x0A]]\<rparr>)"
  by code_simp

section \<open>End of stream\<close>

text \<open>
  Claim C4. Let the reads before the end of stream leave the loop waiting, with the
  accumulator \<open>out\<close>. On \<open>EOFError\<close> the handler is called on \<open>out\<close> first: when it
  raises, its exception leaves the call; when it returns, the call raises
  \<open>ScrapliAuthenticationFailed\<close> with the message of lines 91 to 94, which names the
  host and asks whether \<open>auth_strict_key\<close> needs disabling, and the lock is released. Whatever the stream holds after that, the call never returns a value.
\<close>

theorem eof_before_greeting_fails:
  assumes "authenticate h t (map Data cs) = (BlockedInRead out n, t')"
  shows "authenticate h t (map Data cs @ EOFError # rs) =
           (case h out of
              Some e \<Rightarrow> (Raised e, t')
            | None \<Rightarrow>
                (Raised (ScrapliAuthenticationFailed
                   (''Failed to open connection to host '' @ host t @
                    ''. Do you need to disable `auth_strict_key`?'')),
                 t'\<lparr>session_lock := False\<rparr>))
         \<and> (\<forall>r. fst (authenticate h t (map Data cs @ EOFError # rs)) \<noteq> Returned r)"
proof -
  from assms have free: "\<not> session_lock t"
    by (auto simp: authenticate_def split: if_splits)
  with assms have run:
    "auth_loop h (t\<lparr>session_lock := True\<rparr>) [] 0 (map Data cs) = (BlockedInRead out n, t')"
    by (simp add: authenticate_def)
  from data_run_blocked [OF run] have lk: "session_lock t'" by simp
  have hs: "host t' = host t"
    using auth_loop_host [of h "t\<lparr>session_lock := True\<rparr>" "[]" 0 "map Data cs"] run by simp
  have "authenticate h t (map Data cs @ EOFError # rs) = auth_loop h t' out n (EOFError # rs)"
    using free by (simp add: authenticate_def auth_loop_append run)
  then have eq: "authenticate h t (map Data cs @ EOFError # rs) =
           (case h out of
              Some e \<Rightarrow> (Raised e, t')
            | None \<Rightarrow>
                (Raised (ScrapliAuthenticationFailed
                   (''Failed to open connection to host '' @ host t @
                    ''. Do you need to disable `auth_strict_key`?'')),
                 t'\<lparr>session_lock := False\<rparr>))"
    using lk hs by (simp add: eof_msg_def split: option.splits)
  then show ?thesis by (auto split: option.splits)
qed

text \<open>C4 at a concrete input: a refusal, then the end of the stream.\<close>

theorem eof_before_greeting_fails_witness:
  "authenticate example_handler example_transport (map Data [''Permission denied'']) =
     (BlockedInRead ''Permission denied'' 0, example_transport\<lparr>session_lock := True\<rparr>)
   \<and> authenticate example_handler example_transport
        (map Data [''Permission denied''] @ EOFError # [Data ''<hello'']) =
     (Raised (ScrapliAuthenticationFailed
        ''Failed to open connection to host router1. Do you need to disable `auth_strict_key`?''),
      example_transport)"
proof -
  have h: "authenticate example_handler example_transport (map Data [''Permission denied'']) =
     (BlockedInRead ''Permission denied'' 0, example_transport\<lparr>session_lock := True\<rparr>)"
    by code_simp
  have n: "example_handler ''Permission denied'' = None" by code_simp
  have e: "example_transport\<lparr>session_lock := True\<rparr>\<lparr>session_lock := False\<rparr> = example_transport"
    "host example_transport = ''router1''"
    by (simp_all add: example_transport_def)
  from eof_before_greeting_fails [OF h, of "[Data ''<hello'']"] h show ?thesis
    by (simp add: n e)
qed

section \<open>One iteration of the loop\<close>

text \<open>
  Claim C6. In an iteration that finds \<open>password:\<close> in the accumulator, the password and
  then the return character are written, the count grows by one and the accumulator is
  emptied: the call either fails on the count or goes on from the empty accumulator, so
  the \<open><hello\<close> test sees only what is read afterwards. That iteration never returns,
  also when the greeting came in the same read.
\<close>

theorem prompt_reply_resets_output:
  assumes "prompt_seen (output @ new_output)"
  shows "auth_loop h t output n (Data new_output # rs) =
           (if n + 1 > 1
            then release_then
                   (session_write (session_write t (auth_password t)) (comms_return_char t))
                   (Raised (ScrapliAuthenticationFailed multi_msg))
            else auth_loop h
                   (session_write (session_write t (auth_password t)) (comms_return_char t))
                   [] (n + 1) rs)
         \<and> (\<forall>r. fst (auth_loop h t output n [Data new_output]) \<noteq> Returned r)
         \<and> (\<forall>out' n'. fst (auth_loop h t output n [Data new_output]) = BlockedInRead out' n'
              \<longrightarrow> out' = [] \<and> n' = n + 1)"
  using assms
  by (auto simp: check_prompt_def release_then_def release_def)

text \<open>C6 at a concrete input: prompt and greeting in one read, a greeting in the next.\<close>

theorem prompt_reply_resets_output_witness:
  "prompt_seen ([] @ ''Password: <hello xmlns='')
   \<and> auth_loop example_handler (example_transport\<lparr>session_lock := True\<rparr>) [] 0
        (Data ''Password: <hello xmlns='' # [Data ''<hello>'']) =
      (Returned ''<hello>'',
       example_transport\<lparr>isauthenticated := True, session_written := [''secret'', [CHR 0x0A]]\<rparr>)
   \<and> fst (auth_loop example_handler (example_transport\<lparr>session_lock := True\<rparr>) [] 0
        [Data ''Password: <hello xmlns='']) = BlockedInRead [] 1"
proof -
  have h: "prompt_seen ([] @ ''Password: <hello xmlns='')" by code_simp
  have a: "auth_loop example_handler
        (session_write (session_write (example_transport\<lparr>session_lock := True\<rparr>)
           (auth_password (example_transport\<lparr>session_lock := True\<rparr>)))
           (comms_return_char (example_transport\<lparr>session_lock := True\<rparr>)))
        [] (0 + 1) [Data ''<hello>''] =
      (Returned ''<hello>'',
       example_transport\<lparr>isauthenticated := True, session_written := [''secret'', [CHR 0x0A]]\<rparr>)"
    by code_simp
  have b: "fst (auth_loop example_handler (example_transport\<lparr>session_lock := True\<rparr>) [] 0
        [Data ''Password: <hello xmlns='']) = BlockedInRead [] 1"
    by code_simp
  from prompt_reply_resets_output [OF h, of example_handler
      "example_transport\<lparr>session_lock := True\<rparr>" 0 "[Data ''<hello>'']"]
  have "auth_loop example_handler (example_transport\<lparr>session_lock := True\<rparr>) [] 0
        (Data ''Password: <hello xmlns='' # [Data ''<hello>'']) =
      (Returned ''<hello>'',
       example_transport\<lparr>isauthenticated := True, session_written := [''secret'', [CHR 0x0A]]\<rparr>)"
    unfolding a by simp
  with h b show ?thesis by blast
qed

text \<open>
  Claim C8. One iteration writes the password and the return character once when
  \<open>password:\<close> is in the accumulator and not at all otherwise, and the count it leaves
  is the old count plus one or the old count: the test is membership, whatever the
  number of occurrences.
\<close>

theorem one_reply_per_iteration:
  "session_written (snd (auth_loop h t output n [Data new_output])) =
     session_written t @
       (if prompt_seen (output @ new_output) then [auth_password t, comms_return_char t] else [])
   \<and> (\<forall>out' n'. fst (auth_loop h t output n [Data new_output]) = BlockedInRead out' n'
        \<longrightarrow> n' = (if prompt_seen (output @ new_output) then n + 1 else n))"
  by (auto simp: check_prompt_def release_then_def release_def session_write_def)

text \<open>C8 at a concrete input: three prompts in one read, one reply, count 1.\<close>

theorem one_reply_per_iteration_witness:
  "prompt_seen ([] @ ''password: Password: PASSWORD: '')
   \<and> auth_loop example_handler (example_transport\<lparr>session_lock := True\<rparr>) [] 0
        [Data ''password: Password: PASSWORD: ''] =
       (BlockedInRead [] 1,
        example_transport\<lparr>session_lock := True, session_written := [''secret'', [CHR 0x0A]]\<rparr>)"
proof -
  have r: "auth_loop example_handler (example_transport\<lparr>session_lock := True\<rparr>) [] 0
        [Data ''password: Password: PASSWORD: ''] =
       (BlockedInRead [] 1,
        example_transport\<lparr>session_lock := True, session_written := [''secret'', [CHR 0x0A]]\<rparr>)"
    by code_simp
  have h: "prompt_seen ([] @ ''password: Password: PASSWORD: '')" by code_simp
  from one_reply_per_iteration [of example_handler "example_transport\<lparr>session_lock := True\<rparr>"
      "[]" 0 "''password: Password: PASSWORD: ''"] r h
  show ?thesis by simp
qed

section \<open>Keepalives and the open command\<close>

text \<open>
  Claim C9. \<open>_keepalive_network\<close> always raises \<open>NotImplementedError\<close> with its
  not-supported message, \<open>_keepalive_standard\<close> always raises \<open>NotImplementedError\<close> with
  its not-yet-implemented message; neither returns, neither changes the transport.
\<close>

theorem keepalives_always_raise:
  "keepalive_network t =
     (Raised (NotImplementedError ''`network` style keepalives not supported with netconf''), t)
   \<and> keepalive_standard t = (Raised (NotImplementedError ''keepalives not yet implemented''), t)
   \<and> (\<forall>u. fst (keepalive_network t) \<noteq> Returned u \<and> fst (keepalive_standard t) \<noteq> Returned u)
   \<and> snd (keepalive_network t) = t \<and> snd (keepalive_standard t) = t"
  by (simp add: keepalive_network_def keepalive_standard_def)

text \<open>
  Claim C10. \<open>_build_open_cmd\<close> leaves the tokens of the base builder as they are, with
  \<open>-s\<close> and then \<open>netconf\<close> appended, and changes nothing else.
\<close>

theorem build_open_cmd_appends:
  "open_cmd (build_open_cmd base t) = open_cmd (base t) @ [''-s'', ''netconf'']
   \<and> length (open_cmd (build_open_cmd base t)) = length (open_cmd (base t)) + 2
   \<and> take (length (open_cmd (base t))) (open_cmd (build_open_cmd base t)) = open_cmd (base t)
   \<and> build_open_cmd base t = (base t)\<lparr>open_cmd := open_cmd (base t) @ [''-s'', ''netconf'']\<rparr>"
  by (simp add: build_open_cmd_def Let_def)

section \<open>Letter case\<close>

lemma lower_literals:
  "lower ''Password:'' = ''password:''" "lower ''PASSWORD:'' = ''password:''"
  "lower ''password:'' = ''password:''" "lower ''<HELLO'' = ''<hello''"
  "lower ''<hello'' = ''<hello''"
  by code_simp+


lemma check_prompt_case:
  assumes "lower out = lower out'"
  shows "fst (check_prompt t out n) = fst (check_prompt t out' n)
         \<and> lower (fst (snd (check_prompt t out n))) = lower (fst (snd (check_prompt t out' n)))
         \<and> snd (snd (check_prompt t out n)) = snd (snd (check_prompt t out' n))"
  using assms by (simp add: check_prompt_def)

lemma auth_loop_case:
  assumes "map ev_lower rs = map ev_lower rs'" and "lower out = lower out'"
    and "\<forall>a b. lower a = lower b \<longrightarrow> h a = h b"
  shows "outcome_lower (fst (auth_loop h t out n rs)) = outcome_lower (fst (auth_loop h t out' n rs'))
         \<and> snd (auth_loop h t out n rs) = snd (auth_loop h t out' n rs')"
  using assms
proof (induction rs arbitrary: rs' t out out' n)
  case Nil
  from Nil(1) have "rs' = []" by simp
  with Nil(2) show ?case by simp
next
  case (Cons x rs)
  from Cons.prems(1) obtain x' rs1 where rs': "rs' = x' # rs1"
    and x: "ev_lower x = ev_lower x'" and rest: "map ev_lower rs = map ev_lower rs1"
    by (cases rs') simp_all
  show ?case
  proof (cases x)
    case EOFError
    with x have x': "x' = EOFError" by (cases x') simp_all
    from Cons.prems(2,3) have "h out = h out'" by blast
    with EOFError x' rs' show ?thesis
      by (simp add: release_then_def release_def split: option.splits)
  next
    case (Data c)
    with x obtain c' where x': "x' = Data c'" and c: "lower c = lower c'"
      by (cases x') simp_all
    have l: "lower (out @ c) = lower (out' @ c')"
      using Cons.prems(2) c by simp
    obtain t1 o1 n1 where cp: "check_prompt t (out @ c) n = (t1, o1, n1)"
      by (cases "check_prompt t (out @ c) n") auto
    obtain t2 o2 n2 where cp': "check_prompt t (out' @ c') n = (t2, o2, n2)"
      by (cases "check_prompt t (out' @ c') n") auto
    from check_prompt_case [OF l, of t n] cp cp'
    have same: "t2 = t1" "lower o1 = lower o2" "n2 = n1" by simp_all
    have hs: "hello_seen o1 = hello_seen o2" by (simp only: same(2))
    note ih = Cons.IH [OF rest same(2) Cons.prems(3), of t1 n1]
    have lhs: "auth_loop h t out n (x # rs) =
       (if n1 > 1 then release_then t1 (Raised (ScrapliAuthenticationFailed multi_msg))
        else if hello_seen o1 then release_then (t1\<lparr>isauthenticated := True\<rparr>) (Returned o1)
        else auth_loop h t1 o1 n1 rs)"
      by (simp only: Data auth_loop.simps cp prod.case)
    have rhs: "auth_loop h t out' n rs' =
       (if n1 > 1 then release_then t1 (Raised (ScrapliAuthenticationFailed multi_msg))
        else if hello_seen o1 then release_then (t1\<lparr>isauthenticated := True\<rparr>) (Returned o2)
        else auth_loop h t1 o2 n1 rs1)"
      by (simp only: rs' x' auth_loop.simps cp' prod.case same(1,3) hs)
    show ?thesis
    proof (cases "n1 > 1")
      case True
      then show ?thesis by (simp only: lhs rhs if_True simp_thms)
    next
      case False
      show ?thesis
      proof (cases "hello_seen o1")
        case True
        with False same(2) show ?thesis
          by (simp add: lhs rhs release_then_def release_def del: auth_loop.simps)
      next
        case h: False
        with False ih show ?thesis
          by (simp only: lhs rhs if_False simp_thms)
      qed
    qed
  qed
qed

lemma example_handler_case: "\<forall>a b. lower a = lower b \<longrightarrow> example_handler a = example_handler b"
  by (simp add: example_handler_def)


lemma bytes_in_lower_iff:
  "bytes_in n (lower x) \<longleftrightarrow> (\<exists>a s b. x = a @ s @ b \<and> lower s = n)"
proof
  assume "bytes_in n (lower x)"
  then obtain ps ss where "map lower_byte x = ps @ n @ ss"
    by (auto simp: bytes_in_sublist sublist_def lower_def)
  then obtain a r where x: "x = a @ r" and "map lower_byte r = n @ ss"
    by (metis map_eq_append_conv)
  then obtain s b where "r = s @ b" and "map lower_byte s = n"
    by (metis map_eq_append_conv)
  with x show "\<exists>a s b. x = a @ s @ b \<and> lower s = n"
    by (auto simp: lower_def)
next
  assume "\<exists>a s b. x = a @ s @ b \<and> lower s = n"
  then show "bytes_in n (lower x)"
    by (auto simp: bytes_in_sublist)
qed

lemma lower_alphabet:
  "lower ''ABCDEFGHIJKLMNOPQRSTUVWXYZ'' = ''abcdefghijklmnopqrstuvwxyz''"
  by code_simp

lemma one_iteration:
  assumes "session_lock t"
  shows "auth_loop h t out n (Data new # rest) =
      (if (\<exists>a s b. out @ new = a @ s @ b \<and> lower s = ''password:'')
       then if n + 1 > 1
            then (Raised (ScrapliAuthenticationFailed
                    ''`password` seen multiple times during session establishment, likely failed authentication''),
                  t\<lparr>session_written := session_written t @ [auth_password t, comms_return_char t],
                    session_lock := False\<rparr>)
            else auth_loop h
                   (t\<lparr>session_written := session_written t @ [auth_password t, comms_return_char t]\<rparr>)
                   [] (n + 1) rest
       else if n > 1
       then (Raised (ScrapliAuthenticationFailed
               ''`password` seen multiple times during session establishment, likely failed authentication''),
             t\<lparr>session_lock := False\<rparr>)
       else if (\<exists>a s b. out @ new = a @ s @ b \<and> lower s = ''<hello'')
       then (Returned (out @ new), t\<lparr>isauthenticated := True, session_lock := False\<rparr>)
       else auth_loop h t (out @ new) n rest)"
proof -
  have p: "(\<exists>a s b. out @ new = a @ s @ b \<and> lower s = ''password:'') = prompt_seen (out @ new)"
    by (simp only: bytes_in_lower_iff)
  have g: "(\<exists>a s b. out @ new = a @ s @ b \<and> lower s = ''<hello'') = hello_seen (out @ new)"
    by (simp only: bytes_in_lower_iff)
  show ?thesis
    unfolding p g using assms
    by (simp add: check_prompt_def session_write_def multi_msg_def)
qed

text \<open>
  Claim C7. Both tests are substring tests on the lower-cased accumulator: a marker is
  found exactly when some contiguous piece of the accumulator lower-cases to it, so
  \<open>Password:\<close>, \<open>PASSWORD:\<close> and \<open>password:\<close> all count as the prompt, and \<open><HELLO\<close>
  and \<open><hello\<close> as the greeting. One iteration, with the lock held, does this: on a
  prompt it writes the password and the return character, and fails on the second prompt
  or goes on from the empty accumulator; otherwise, on a greeting it sets the flag,
  releases the lock and returns the accumulator as it was read; otherwise it reads on.
  Two streams of reads that agree once lower-cased drive the whole call the same way, for
  a handler that ignores letter case.
\<close>

theorem matching_ignores_case:
  assumes lk: "session_lock t"
    and same: "map ev_lower rs = map ev_lower rs'"
    and hc: "\<forall>a b. lower a = lower b \<longrightarrow> h a = h b"
  shows "auth_loop h t out n (Data new # rest) =
      (if (\<exists>a s b. out @ new = a @ s @ b \<and> lower s = ''password:'')
       then if n + 1 > 1
            then (Raised (ScrapliAuthenticationFailed
                    ''`password` seen multiple times during session establishment, likely failed authentication''),
                  t\<lparr>session_written := session_written t @ [auth_password t, comms_return_char t],
                    session_lock := False\<rparr>)
            else auth_loop h
                   (t\<lparr>session_written := session_written t @ [auth_password t, comms_return_char t]\<rparr>)
                   [] (n + 1) rest
       else if n > 1
       then (Raised (ScrapliAuthenticationFailed
               ''`password` seen multiple times during session establishment, likely failed authentication''),
             t\<lparr>session_lock := False\<rparr>)
       else if (\<exists>a s b. out @ new = a @ s @ b \<and> lower s = ''<hello'')
       then (Returned (out @ new), t\<lparr>isauthenticated := True, session_lock := False\<rparr>)
       else auth_loop h t (out @ new) n rest)
    \<and> outcome_lower (fst (authenticate h u rs)) = outcome_lower (fst (authenticate h u rs'))
    \<and> snd (authenticate h u rs) = snd (authenticate h u rs')
    \<and> lower ''Password:'' = ''password:'' \<and> lower ''PASSWORD:'' = ''password:''
    \<and> lower ''password:'' = ''password:''
    \<and> lower ''<HELLO'' = ''<hello'' \<and> lower ''<hello'' = ''<hello''
    \<and> lower ''ABCDEFGHIJKLMNOPQRSTUVWXYZ'' = ''abcdefghijklmnopqrstuvwxyz''"
proof -
  have inv: "outcome_lower (fst (authenticate h u rs)) = outcome_lower (fst (authenticate h u rs'))
    \<and> snd (authenticate h u rs) = snd (authenticate h u rs')"
    using auth_loop_case [OF same _ hc, of "[]" "[]" "u\<lparr>session_lock := True\<rparr>" 0]
    by (simp add: authenticate_def)
  show ?thesis
    by (intro conjI) (rule one_iteration [OF lk], rule inv [THEN conjunct1],
        rule inv [THEN conjunct2], (rule lower_literals)+, rule lower_alphabet)
qed

text \<open>C7 at a concrete input: a capitalised prompt and greeting against small letters.\<close>

theorem matching_ignores_case_witness:
  "session_lock (example_transport\<lparr>session_lock := True\<rparr>)
   \<and> map ev_lower [Data ''Password: '', Data ''<HELLO>''] =
       map ev_lower [Data ''password: '', Data ''<hello>'']
   \<and> auth_loop example_handler (example_transport\<lparr>session_lock := True\<rparr>) [] 0
        (Data ''Password: '' # [Data ''<HELLO>'']) =
       (Returned ''<HELLO>'',
        example_transport\<lparr>isauthenticated := True, session_written := [''secret'', [CHR 0x0A]]\<rparr>)
   \<and> authenticate example_handler example_transport [Data ''password: '', Data ''<hello>''] =
       (Returned ''<hello>'',
        example_transport\<lparr>isauthenticated := True, session_written := [''secret'', [CHR 0x0A]]\<rparr>)
   \<and> outcome_lower (fst (authenticate example_handler example_transport
          [Data ''Password: '', Data ''<HELLO>''])) =
       outcome_lower (fst (authenticate example_handler example_transport
          [Data ''password: '', Data ''<hello>'']))
   \<and> snd (authenticate example_handler example_transport [Data ''Password: '', Data ''<HELLO>''])
       = snd (authenticate example_handler example_transport [Data ''password: '', Data ''<hello>''])"
proof -
  have h1: "session_lock (example_transport\<lparr>session_lock := True\<rparr>)" by simp
  have h2: "map ev_lower [Data ''Password: '', Data ''<HELLO>''] =
     map ev_lower [Data ''password: '', Data ''<hello>'']" by code_simp
  note inst = matching_ignores_case [OF h1 h2 example_handler_case,
      of "[]" 0 "''Password: ''" "[Data ''<HELLO>'']" example_transport]
  have ex: "\<exists>a s b. [] @ ''Password: '' = a @ s @ b \<and> lower s = ''password:''"
  proof (intro exI conjI)
    show "[] @ ''Password: '' = [] @ ''Password:'' @ '' ''" by simp
    show "lower ''Password:'' = ''password:''" by (rule lower_literals)
  qed
  have next_read: "auth_loop example_handler
        (example_transport\<lparr>session_lock := True,
           session_written := session_written (example_transport\<lparr>session_lock := True\<rparr>) @
             [auth_password (example_transport\<lparr>session_lock := True\<rparr>),
              comms_return_char (example_transport\<lparr>session_lock := True\<rparr>)]\<rparr>)
        [] (0 + 1) [Data ''<HELLO>''] =
       (Returned ''<HELLO>'',
        example_transport\<lparr>isauthenticated := True, session_written := [''secret'', [CHR 0x0A]]\<rparr>)"
    by code_simp
  have r1: "auth_loop example_handler (example_transport\<lparr>session_lock := True\<rparr>) [] 0
        (Data ''Password: '' # [Data ''<HELLO>'']) =
       (Returned ''<HELLO>'',
        example_transport\<lparr>isauthenticated := True, session_written := [''secret'', [CHR 0x0A]]\<rparr>)"
    using inst [THEN conjunct1] ex next_read by (simp del: auth_loop.simps)
  have r2: "authenticate example_handler example_transport [Data ''password: '', Data ''<hello>''] =
       (Returned ''<hello>'',
        example_transport\<lparr>isauthenticated := True, session_written := [''secret'', [CHR 0x0A]]\<rparr>)"
    by code_simp
  from inst h1 h2 r1 r2 show ?thesis by blast
qed

section \<open>The timeout\<close>

lemma arrived_by_append:
  "sum_list (map fst xs) < d \<Longrightarrow>
     arrived_by d (xs @ ys) = map snd xs @ arrived_by (d - sum_list (map fst xs)) ys"
proof (induction xs arbitrary: d)
  case Nil
  then show ?case by simp
next
  case (Cons x xs)
  obtain dt ev where x: "x = (dt, ev)" by (cases x)
  with Cons.prems have "dt < d" and "sum_list (map fst xs) < d - dt" by simp_all
  with Cons.IH [of "d - dt"] x show ?case by simp
qed

text \<open>
  Claim C5, with the message as line 63 has it. The deadline is on the whole call: the
  waits of the reads add up. When the reads \<open>xs\<close> arrive before the deadline, nothing
  more arrives in the time left, and the call has not ended on \<open>xs\<close> (no greeting, no
  end of stream, no repeated prompt), the call fails with \<open>OperationTimeout\<close> and the
  message \<open>Timed out looking for SSH login password prompt\<close>, which is not an
  authentication failure.
\<close>

theorem timeout_cuts_whole_loop:
  assumes arrived: "sum_list (map fst xs) < timeout_ops t"
    and late: "arrived_by (timeout_ops t - sum_list (map fst xs)) ys = []"
    and open_end: "\<not> ended (fst (authenticate h t (map snd xs)))"
  shows "fst (authenticate_timed h t (xs @ ys)) =
           Raised (OperationTimeout ''Timed out looking for SSH login password prompt'')
         \<and> (\<forall>m. fst (authenticate_timed h t (xs @ ys)) \<noteq> Raised (ScrapliAuthenticationFailed m))"
proof -
  have "arrived_by (timeout_ops t) (xs @ ys) = map snd xs"
    using arrived_by_append [OF arrived, of ys] late by simp
  moreover have "timeout_ops t \<noteq> 0"
    using arrived by simp
  ultimately show ?thesis
    using open_end
    by (cases "authenticate h t (map snd xs)")
       (simp add: authenticate_timed_def operation_timeout_def)
qed

text \<open>
  C5 at a concrete input, with a deadline of 5 ticks: three reads that each take 2 ticks.
  No read is late by itself, the third is late for the call, and the greeting in it is
  never read.
\<close>

theorem timeout_cuts_whole_loop_witness:
  "sum_list (map fst [(2::nat, Data ''login: ''), (2, Data ''Password: '')])
     < timeout_ops example_transport
   \<and> arrived_by (timeout_ops example_transport
        - sum_list (map fst [(2::nat, Data ''login: ''), (2, Data ''Password: '')]))
        [(2, Data ''<hello'')] = []
   \<and> \<not> ended (fst (authenticate example_handler example_transport
        (map snd [(2::nat, Data ''login: ''), (2, Data ''Password: '')])))
   \<and> fst (authenticate_timed example_handler example_transport
        ([(2::nat, Data ''login: ''), (2, Data ''Password: '')] @ [(2, Data ''<hello'')])) =
       Raised (OperationTimeout ''Timed out looking for SSH login password prompt'')"
proof -
  have h1: "sum_list (map fst [(2::nat, Data ''login: ''), (2, Data ''Password: '')])
     < timeout_ops example_transport" by (simp add: example_transport_def)
  have h2: "arrived_by (timeout_ops example_transport
        - sum_list (map fst [(2::nat, Data ''login: ''), (2, Data ''Password: '')]))
        [(2, Data ''<hello'')] = []" by (simp add: example_transport_def)
  have h3: "\<not> ended (fst (authenticate example_handler example_transport
        (map snd [(2::nat, Data ''login: ''), (2, Data ''Password: '')])))" by code_simp
  from timeout_cuts_whole_loop [OF h1 h2 h3]
  have c: "fst (authenticate_timed example_handler example_transport
        ([(2::nat, Data ''login: ''), (2, Data ''Password: '')] @ [(2, Data ''<hello'')])) =
       Raised (OperationTimeout ''Timed out looking for SSH login password prompt'')"
    by (rule conjunct1)
  show ?thesis
    by (intro conjI) (rule h1, rule h2, rule h3, rule c)
qed

text \<open>
  C5 as stated fails in the message only: the text raised starts with a capital letter.
\<close>

theorem timeout_message_counterexample:
  "\<not> ended (fst (authenticate example_handler example_transport
        (arrived_by (timeout_ops example_transport) [(9, Data ''<hello'')])))
   \<and> fst (authenticate_timed example_handler example_transport [(9, Data ''<hello'')]) \<noteq>
       Raised (OperationTimeout ''timed out looking for SSH login password prompt'')
   \<and> fst (authenticate_timed example_handler example_transport [(9, Data ''<hello'')]) =
       Raised (OperationTimeout ''Timed out looking for SSH login password prompt'')"
  by code_simp

section \<open>The lock\<close>

text \<open>
  Every call that ends, other than by an exception of the handler, ends with the lock
  released.
\<close>

lemma auth_loop_releases:
  assumes "auth_loop h t out n rs = (r, t')" and "session_lock t" and "ended r"
    and "\<And>e b. r = Raised e \<Longrightarrow> h b \<noteq> Some e"
  shows "\<not> session_lock t'"
  using assms(1,2)
proof (induction rs arbitrary: t out n)
  case Nil
  with assms(3) show ?case by auto
next
  case (Cons x rs)
  show ?case
  proof (cases x)
    case EOFError
    show ?thesis
    proof (cases "h out")
      case None
      with Cons.prems EOFError show ?thesis by auto
    next
      case (Some e)
      with Cons.prems(1) EOFError have "r = Raised e" by simp
      from assms(4) [OF this, of out] Some show ?thesis by simp
    qed
  next
    case (Data c)
    obtain t1 o1 n1 where cp: "check_prompt t (out @ c) n = (t1, o1, n1)"
      by (cases "check_prompt t (out @ c) n") auto
    then have lk: "session_lock t1"
      using Cons.prems(2) check_prompt_lock [of t "out @ c" n] by simp
    from Cons.prems(1) Data cp lk consider
      (multi) "t' = t1\<lparr>session_lock := False\<rparr>"
      | (hello) "t' = t1\<lparr>isauthenticated := True, session_lock := False\<rparr>"
      | (later) "auth_loop h t1 o1 n1 rs = (r, t')"
      by (auto split: if_splits)
    then show ?thesis
    proof cases
      case later
      from Cons.IH [OF later lk] show ?thesis .
    qed simp_all
  qed
qed

lemma authenticate_releases:
  assumes "authenticate h t rs = (r, t')" and "\<not> session_lock t" and "ended r"
    and "\<And>e b. r = Raised e \<Longrightarrow> h b \<noteq> Some e"
  shows "\<not> session_lock t'"
  using assms(1,2) auth_loop_releases [of h "t\<lparr>session_lock := True\<rparr>" "[]" 0 rs r t', OF _ _ assms(3,4)]
  by (simp add: authenticate_def)

text \<open>
  Claim C2 fails on one path. When the stream ends and the handler raises, its exception
  leaves \<open>_authenticate\<close> at line 88, before the release at line 96: the lock stays held,
  and the next call that acquires it waits.
\<close>

theorem lock_held_after_handler_raises:
  "authenticate example_handler example_transport
     [Data ''Host key verification failed.'', EOFError] =
     (Raised (ScrapliAuthenticationFailed ''Host key verification failed''),
      example_transport\<lparr>session_lock := True\<rparr>)
   \<and> fst (authenticate example_handler
          (snd (authenticate example_handler example_transport
                  [Data ''Host key verification failed.'', EOFError]))
          [Data ''<hello'']) = BlockedOnLock"
  by code_simp

end
